theory Spec2Isabelle
  imports Main "HOL-Library.Product_Lexorder"
begin

section \<open>GrilleCipher: the placement engine of \<^verbatim>\<open>GrilleCipher.py\<close>\<close>

text \<open>
  The development embeds the placement core of the program: \<^verbatim>\<open>generate_letter_grid\<close>,
  \<^verbatim>\<open>place_word_scattered\<close>, \<^verbatim>\<open>apply_word_to_grid\<close> and the placement loop of the main
  program. The rendering functions (PDF and SVG output) are not part of it.

  Conventions of the embedding:
  \<^item> Characters are a type parameter \<open>'c\<close>: the placement code only compares characters
    and tests membership in the word. Every grid cell and every element of a word is one
    character, so Python's \<^verbatim>\<open>grid[r][c] not in word\<close> is membership in \<open>set word\<close>.
  \<^item> Python integers are \<open>int\<close>; a coordinate is a pair of integers.
  \<^item> The process-wide random source is an infinite sequence of draws \<open>nat \<Rightarrow> nat\<close>;
    each call of \<^verbatim>\<open>random.randint\<close> or \<^verbatim>\<open>random.choice\<close> consumes the next draw and
    reduces it into the requested range. Every behaviour of the library generator is the
    behaviour of some such sequence.
  \<^item> The mutable objects shared between the functions (the grid, the occupancy set
    \<^verbatim>\<open>forbidden\<close>, the random source) form a record that every function takes and returns.
    The rows of the grid are separate lists, as \<^verbatim>\<open>generate_letter_grid\<close> builds them.
  \<^item> An exception is a value \<open>Inl e\<close>; the state at the moment it is raised is returned
    with it. A loop that may run forever returns \<open>None\<close> when it does.
\<close>

subsection \<open>Data\<close>

type_synonym coord = "int \<times> int"

type_synonym rng = "nat \<Rightarrow> nat"

text \<open>The exceptions that the embedded code can raise. The message of the \<^verbatim>\<open>RuntimeError\<close>
  (a text naming the word) is not modelled.\<close>

datatype error = RuntimeError | ValueError | IndexError

record 'c world =
  grid :: "'c list list"
  forbidden :: "coord set"
  rng :: rng

subsection \<open>Library operations\<close>

text \<open>\<^verbatim>\<open>xs[i]\<close> for a Python list: a negative index counts from the end, an index out of
  range raises \<^verbatim>\<open>IndexError\<close>.\<close>

definition py_norm :: "'a list \<Rightarrow> int \<Rightarrow> int" where
  "py_norm xs i = (if i < 0 then i + int (length xs) else i)"

definition py_index :: "'a list \<Rightarrow> int \<Rightarrow> error + 'a" where
  "py_index xs i =
     (if 0 \<le> py_norm xs i \<and> py_norm xs i < int (length xs)
      then Inr (xs ! nat (py_norm xs i)) else Inl IndexError)"

text \<open>\<^verbatim>\<open>xs[i] = v\<close>.\<close>

definition py_setitem :: "'a list \<Rightarrow> int \<Rightarrow> 'a \<Rightarrow> error + 'a list" where
  "py_setitem xs i v =
     (if 0 \<le> py_norm xs i \<and> py_norm xs i < int (length xs)
      then Inr (xs[nat (py_norm xs i) := v]) else Inl IndexError)"

text \<open>\<^verbatim>\<open>grid[r][c]\<close> and \<^verbatim>\<open>grid[r][c] = ch\<close>.\<close>

definition grid_get :: "'c list list \<Rightarrow> int \<Rightarrow> int \<Rightarrow> error + 'c" where
  "grid_get g r c = (case py_index g r of Inl e \<Rightarrow> Inl e | Inr row \<Rightarrow> py_index row c)"

definition grid_set :: "'c list list \<Rightarrow> int \<Rightarrow> int \<Rightarrow> 'c \<Rightarrow> error + 'c list list" where
  "grid_set g r c ch =
     (case py_index g r of
        Inl e \<Rightarrow> Inl e
      | Inr row \<Rightarrow>
          (case py_setitem row c ch of
             Inl e \<Rightarrow> Inl e
           | Inr row' \<Rightarrow> Inr (g[nat (py_norm g r) := row'])))"

text \<open>\<^verbatim>\<open>random.randint(a, b)\<close>: an integer of the closed range, \<^verbatim>\<open>ValueError\<close> when the
  range is empty.\<close>

definition next_draw :: "rng \<Rightarrow> rng" where
  "next_draw g = (\<lambda>n. g (Suc n))"

definition randint :: "int \<Rightarrow> int \<Rightarrow> 'c world \<Rightarrow> (error + int) \<times> 'c world" where
  "randint a b w =
     (if b < a then (Inl ValueError, w)
      else (Inr (a + int (rng w 0 mod nat (b - a + 1))), w\<lparr>rng := next_draw (rng w)\<rparr>))"


subsection \<open>\<^verbatim>\<open>generate_letter_grid\<close>\<close>

text \<open>The alphabet \<^verbatim>\<open>string.ascii_uppercase + "\<close>\<open>\<dots>\<close>\<^verbatim>\<open>"\<close>, as code points: A to Z, then the
  three umlauts and the sharp s.\<close>

definition letters :: "nat list" where
  "letters = [65 ..< 91] @ [196, 214, 220, 223]"




subsection \<open>\<^verbatim>\<open>place_word_scattered\<close>\<close>

definition max_attempts :: nat where
  "max_attempts = 5000"

text \<open>One iteration of the sampling loop \<^verbatim>\<open>while len(positions) < len(word)\<close>: two draws,
  the test against \<^verbatim>\<open>chosen\<close>, the test against \<^verbatim>\<open>forbidden\<close> and the letter of the grid
  (read only for a coordinate of \<^verbatim>\<open>forbidden\<close>), and the two appends. A \<^verbatim>\<open>continue\<close>
  leaves \<^verbatim>\<open>positions\<close> and \<^verbatim>\<open>chosen\<close> as they are.\<close>

definition sample_step ::
  "'c list \<Rightarrow> int \<Rightarrow> coord list \<times> coord set \<Rightarrow> 'c world
     \<Rightarrow> (error + coord list \<times> coord set) \<times> 'c world" where
  "sample_step word sz st w =
     (case st of (positions, chosen) \<Rightarrow>
      (case randint 0 (sz - 1) w of
         (Inl e, w1) \<Rightarrow> (Inl e, w1)
       | (Inr r, w1) \<Rightarrow>
           (case randint 0 (sz - 1) w1 of
              (Inl e, w2) \<Rightarrow> (Inl e, w2)
            | (Inr c, w2) \<Rightarrow>
                if (r, c) \<in> chosen then (Inr (positions, chosen), w2)
                else if (r, c) \<in> forbidden w2 then
                  (case grid_get (grid w2) r c of
                     Inl e \<Rightarrow> (Inl e, w2)
                   | Inr existing \<Rightarrow>
                       if existing \<notin> set word then (Inr (positions, chosen), w2)
                       else (Inr (positions @ [(r, c)], insert (r, c) chosen), w2))
                else (Inr (positions @ [(r, c)], insert (r, c) chosen), w2))))"

text \<open>The sampling loop. Nothing bounds the number of its iterations.\<close>

partial_function (option) sample_positions ::
  "'c list \<Rightarrow> int \<Rightarrow> coord list \<times> coord set \<Rightarrow> 'c world
     \<Rightarrow> ((error + coord list \<times> coord set) \<times> 'c world) option" where
  "sample_positions word sz st w =
     (if length (fst st) < length word then
        (case sample_step word sz st w of
           (Inl e, w1) \<Rightarrow> Some (Inl e, w1)
         | (Inr st1, w1) \<Rightarrow> sample_positions word sz st1 w1)
      else Some (Inr st, w))"

text \<open>The validation loop over \<^verbatim>\<open>zip(sorted_positions, word)\<close>, with its \<^verbatim>\<open>break\<close>.\<close>

fun validate :: "(coord \<times> 'c) list \<Rightarrow> 'c world \<Rightarrow> error + bool" where
  "validate [] w = Inr True"
| "validate (((r, c), ch) # rest) w =
     (if (r, c) \<in> forbidden w then
        (case grid_get (grid w) r c of
           Inl e \<Rightarrow> Inl e
         | Inr existing \<Rightarrow> if existing \<noteq> ch then Inr False else validate rest w)
      else validate rest w)"

text \<open>One attempt, the body of \<^verbatim>\<open>while True\<close> after the test of the counter: sample, sort
  in reading order, validate. It yields \<^verbatim>\<open>valid\<close> and \<^verbatim>\<open>sorted_positions\<close>.\<close>

definition attempt ::
  "'c list \<Rightarrow> int \<Rightarrow> 'c world \<Rightarrow> ((error + bool \<times> coord list) \<times> 'c world) option" where
  "attempt word sz w =
     (case sample_positions word sz ([], {}) w of
        None \<Rightarrow> None
      | Some (Inl e, w1) \<Rightarrow> Some (Inl e, w1)
      | Some (Inr (positions, chosen), w1) \<Rightarrow>
          (let sorted_positions = sort_key (\<lambda>pos. (fst pos, snd pos)) positions in
           case validate (zip sorted_positions word) w1 of
             Inl e \<Rightarrow> Some (Inl e, w1)
           | Inr valid \<Rightarrow> Some (Inr (valid, sorted_positions), w1)))"

text \<open>The loop \<^verbatim>\<open>while True\<close> with its counter; \<open>attempts\<close> is the value of the counter
  at the start of the iteration.\<close>

function place_loop ::
  "'c list \<Rightarrow> int \<Rightarrow> nat \<Rightarrow> 'c world \<Rightarrow> ((error + coord list) \<times> 'c world) option" where
  "place_loop word sz attempts w =
     (if attempts + 1 > max_attempts then Some (Inl RuntimeError, w)
      else
        (case attempt word sz w of
           None \<Rightarrow> None
         | Some (Inl e, w1) \<Rightarrow> Some (Inl e, w1)
         | Some (Inr (valid, sorted_positions), w1) \<Rightarrow>
             if valid then Some (Inr sorted_positions, w1)
             else place_loop word sz (attempts + 1) w1))"
  by pat_completeness auto
termination
  by (relation "measure (\<lambda>(word, sz, attempts, w). max_attempts - attempts)") auto

definition place_word_scattered ::
  "'c list \<Rightarrow> int \<Rightarrow> 'c world \<Rightarrow> ((error + coord list) \<times> 'c world) option" where
  "place_word_scattered word sz w = place_loop word sz 0 w"

subsection \<open>\<^verbatim>\<open>apply_word_to_grid\<close>\<close>

fun apply_pairs :: "(coord \<times> 'c) list \<Rightarrow> 'c world \<Rightarrow> (error + unit) \<times> 'c world" where
  "apply_pairs [] w = (Inr (), w)"
| "apply_pairs (((r, c), ch) # rest) w =
     (case grid_set (grid w) r c ch of
        Inl e \<Rightarrow> (Inl e, w)
      | Inr g' \<Rightarrow> apply_pairs rest (w\<lparr>grid := g'\<rparr>))"

definition apply_word_to_grid ::
  "coord list \<Rightarrow> 'c list \<Rightarrow> 'c world \<Rightarrow> (error + unit) \<times> 'c world" where
  "apply_word_to_grid positions word w = apply_pairs (zip positions word) w"

subsection \<open>The main program\<close>

text \<open>The loop \<^verbatim>\<open>for word in WORDS\<close>: place, write the letters, extend the occupancy set,
  record the mask and the ordered positions.\<close>

fun place_words ::
  "'c list list \<Rightarrow> int \<Rightarrow> coord set list \<times> coord list list \<Rightarrow> 'c world
     \<Rightarrow> ((error + coord set list \<times> coord list list) \<times> 'c world) option" where
  "place_words [] sz acc w = Some (Inr acc, w)"
| "place_words (word # rest) sz (masks, word_positions) w =
     (case place_word_scattered word sz w of
        None \<Rightarrow> None
      | Some (Inl e, w1) \<Rightarrow> Some (Inl e, w1)
      | Some (Inr positions, w1) \<Rightarrow>
          (case apply_word_to_grid positions word w1 of
             (Inl e, w2) \<Rightarrow> Some (Inl e, w2)
           | (Inr u, w2) \<Rightarrow>
               place_words rest sz (masks @ [set positions], word_positions @ [positions])
                 (w2\<lparr>forbidden := forbidden w2 \<union> set positions\<rparr>)))"


subsection \<open>Notions used in the statements\<close>

text \<open>The coordinates of a grid of the given size.\<close>

definition box :: "int \<Rightarrow> coord set" where
  "box sz = {0..<sz} \<times> {0..<sz}"

text \<open>The state of the sampling loop: \<^verbatim>\<open>positions\<close> holds pairwise distinct coordinates of the
  grid, and \<^verbatim>\<open>chosen\<close> is the set of them.\<close>

definition sample_inv :: "int \<Rightarrow> coord list \<times> coord set \<Rightarrow> bool" where
  "sample_inv sz st \<longleftrightarrow> distinct (fst st) \<and> set (fst st) = snd st \<and> set (fst st) \<subseteq> box sz"

text \<open>Reading the grid at a sequence of coordinates, in the order of the sequence.\<close>

definition read_word :: "'c list list \<Rightarrow> coord list \<Rightarrow> (error + 'c) list" where
  "read_word g ps = map (\<lambda>(r, c). grid_get g r c) ps"

text \<open>A concrete run: a grid of size 2 filled with the letter 7, an empty occupancy set,
  and a random source whose draws are 1, 0, 0, 0, ...; \<open>demo_world1\<close> is the state after
  the word 5 6 has been placed.\<close>

definition demo_world :: "nat world" where
  "demo_world = \<lparr>grid = [[7, 7], [7, 7]], forbidden = {}, rng = (\<lambda>n. if n = 0 then 1 else 0)\<rparr>"

definition demo_world1 :: "nat world" where
  "demo_world1 = \<lparr>grid = [[7, 7], [7, 7]], forbidden = {}, rng = (\<lambda>n. 0)\<rparr>"

text \<open>The state after the demonstration word has been written into the grid.\<close>

definition demo_world2 :: "nat world" where
  "demo_world2 = \<lparr>grid = [[5, 7], [6, 7]], forbidden = {}, rng = (\<lambda>n. 0)\<rparr>"

text \<open>The words placed so far are in the grid: each recorded coordinate sequence reads as its
  word, and lies in the occupancy set.\<close>

definition placed :: "'c world \<Rightarrow> coord list list \<Rightarrow> 'c list list \<Rightarrow> bool" where
  "placed w wps ws \<longleftrightarrow>
     list_all2 (\<lambda>ps wd. read_word (grid w) ps = map Inr wd \<and> set ps \<subseteq> forbidden w \<and>
                        (\<forall>p \<in> set ps. 0 \<le> fst p \<and> 0 \<le> snd p)) wps ws"

text \<open>The state after the occupancy set has been extended by the demonstration word; placing
  the second word 5 on its first cell leaves this state as it is.\<close>

definition demo_world3 :: "nat world" where
  "demo_world3 = \<lparr>grid = [[5, 7], [6, 7]], forbidden = {(0, 0), (1, 0)}, rng = (\<lambda>n. 0)\<rparr>"

text \<open>The first \<open>n\<close> attempts are all discarded, that is, each of them samples its positions
  and fails the validation; the result is the state after the last of them.\<close>

fun discarded_attempts :: "nat \<Rightarrow> 'c list \<Rightarrow> int \<Rightarrow> 'c world \<Rightarrow> 'c world option" where
  "discarded_attempts 0 word sz w = Some w"
| "discarded_attempts (Suc n) word sz w =
     (case attempt word sz w of
        None \<Rightarrow> None
      | Some (res, w1) \<Rightarrow>
          (case res of
             Inl e \<Rightarrow> None
           | Inr (valid, ps) \<Rightarrow> if valid then None else discarded_attempts n word sz w1))"

text \<open>A full grid on which the word 5 6 cannot be placed: every cell is occupied and holds
  a letter of the word, but no two cells read 5 then 6 in reading order. The draws are
  0, 0, 1, 1, 0, 0, 1, 1, ...\<close>

definition exhaust_world :: "nat world" where
  "exhaust_world = \<lparr>grid = [[6, 6], [5, 5]], forbidden = {(0, 0), (0, 1), (1, 0), (1, 1)},
     rng = (\<lambda>n. n div 2 mod 2)\<rparr>"

definition exhaust_world_mid :: "nat world" where
  "exhaust_world_mid = \<lparr>grid = [[6, 6], [5, 5]], forbidden = {(0, 0), (0, 1), (1, 0), (1, 1)},
     rng = (\<lambda>n. Suc (n div 2) mod 2)\<rparr>"


section \<open>Properties of the library operations and of the loops\<close>

declare place_loop.simps [simp del]

lemma randint_pos:
  "0 < sz \<Longrightarrow> randint 0 (sz - 1) w =
     (Inr (int (rng w 0 mod nat sz)), w\<lparr>rng := next_draw (rng w)\<rparr>)"
  by (simp add: randint_def)

lemma randint_nonpos: "sz \<le> 0 \<Longrightarrow> randint 0 (sz - 1) w = (Inl ValueError, w)"
  by (simp add: randint_def)

lemma draw_in_range: "0 < sz \<Longrightarrow> 0 \<le> int (n mod nat sz) \<and> int (n mod nat sz) < sz"
proof -
  assume pos: "0 < sz"
  then have "n mod nat sz < nat sz" by simp
  then show ?thesis using pos by linarith
qed

text \<open>The iteration of the sampling loop, once the two draws are made.\<close>

lemma sample_step_pos:
  assumes "0 < sz"
  shows "sample_step word sz (positions, chosen) w =
     (let r = int (rng w 0 mod nat sz); c = int (rng w 1 mod nat sz);
          w2 = w\<lparr>rng := next_draw (next_draw (rng w))\<rparr>
      in if (r, c) \<in> chosen then (Inr (positions, chosen), w2)
         else if (r, c) \<in> forbidden w then
           (case grid_get (grid w) r c of
              Inl e \<Rightarrow> (Inl e, w2)
            | Inr existing \<Rightarrow>
                if existing \<notin> set word then (Inr (positions, chosen), w2)
                else (Inr (positions @ [(r, c)], insert (r, c) chosen), w2))
         else (Inr (positions @ [(r, c)], insert (r, c) chosen), w2))"
  unfolding sample_step_def
  by (simp add: randint_pos[OF assms] next_draw_def Let_def cong: sum.case_cong if_cong)

lemma sample_step_nonpos: "sz \<le> 0 \<Longrightarrow> sample_step word sz st w = (Inl ValueError, w)"
  unfolding sample_step_def by (simp add: randint_nonpos split: prod.split)

lemma grid_get_error: "grid_get g r c = Inl e \<Longrightarrow> e = IndexError"
  by (auto simp: grid_get_def py_index_def split: sum.splits if_splits)

lemma sample_step_frame:
  "sample_step word sz st w = (res, w') \<Longrightarrow> grid w' = grid w \<and> forbidden w' = forbidden w"
proof (cases "0 < sz")
  case True
  assume "sample_step word sz st w = (res, w')"
  then show ?thesis using sample_step_pos[OF True, of word "fst st" "snd st" w]
    by (auto simp: Let_def split: if_splits sum.splits)
next
  case False
  assume "sample_step word sz st w = (res, w')"
  then show ?thesis using sample_step_nonpos[of sz word st w] False by simp
qed

lemma sample_step_error:
  "sample_step word sz st w = (Inl e, w') \<Longrightarrow>
     (e = ValueError \<and> sz \<le> 0) \<or> (e = IndexError \<and> forbidden w \<noteq> {})"
proof (cases "0 < sz")
  case True
  assume "sample_step word sz st w = (Inl e, w')"
  then show ?thesis using sample_step_pos[OF True, of word "fst st" "snd st" w]
    by (auto simp: Let_def split: if_splits sum.splits dest: grid_get_error)
next
  case False
  assume "sample_step word sz st w = (Inl e, w')"
  then show ?thesis using sample_step_nonpos[of sz word st w] False by simp
qed

lemma sample_step_inv:
  "sample_inv sz st \<Longrightarrow> sample_step word sz st w = (Inr st', w') \<Longrightarrow> sample_inv sz st'"
proof (cases "0 < sz")
  case True
  assume inv: "sample_inv sz st" and s: "sample_step word sz st w = (Inr st', w')"
  note rg = draw_in_range[OF True, of "rng w 0"] draw_in_range[OF True, of "rng w 1"]
  from s inv rg show ?thesis using sample_step_pos[OF True, of word "fst st" "snd st" w]
    by (auto simp: Let_def sample_inv_def box_def split: if_splits sum.splits)
next
  case False
  assume "sample_step word sz st w = (Inr st', w')"
  then show ?thesis using sample_step_nonpos[of sz word st w] False by simp
qed

lemma sample_step_len:
  "sample_step word sz st w = (Inr st1, w1) \<Longrightarrow> length (fst st1) \<le> Suc (length (fst st))"
proof (cases "0 < sz")
  case True
  assume "sample_step word sz st w = (Inr st1, w1)"
  then show ?thesis using sample_step_pos[OF True, of word "fst st" "snd st" w]
    by (auto simp: Let_def split: if_splits sum.splits)
next
  case False
  assume "sample_step word sz st w = (Inr st1, w1)"
  then show ?thesis using sample_step_nonpos[of sz word st w] False by simp
qed

lemma sample_positions_done:
  "\<not> length (fst st) < length word \<Longrightarrow> sample_positions word sz st w = Some (Inr st, w)"
  by (subst sample_positions.simps) simp

lemma sample_positions_step:
  "length (fst st) < length word \<Longrightarrow> sample_step word sz st w = (Inr st1, w1) \<Longrightarrow>
     sample_positions word sz st w = sample_positions word sz st1 w1"
  by (subst sample_positions.simps) simp

lemma sample_positions_raise:
  "length (fst st) < length word \<Longrightarrow> sample_step word sz st w = (Inl e, w1) \<Longrightarrow>
     sample_positions word sz st w = Some (Inl e, w1)"
  by (subst sample_positions.simps) simp

text \<open>Invariant rule for the sampling loop: a property of every result it returns.\<close>

lemma sample_positions_rule:
  assumes run: "sample_positions word sz st w = Some y"
    and init: "I st w"
    and step: "\<And>st w st1 w1. I st w \<Longrightarrow> length (fst st) < length word \<Longrightarrow>
                 sample_step word sz st w = (Inr st1, w1) \<Longrightarrow> I st1 w1"
    and fin: "\<And>st w. I st w \<Longrightarrow> \<not> length (fst st) < length word \<Longrightarrow> P (Inr st, w)"
    and err: "\<And>st w e w1. I st w \<Longrightarrow> length (fst st) < length word \<Longrightarrow>
                 sample_step word sz st w = (Inl e, w1) \<Longrightarrow> P (Inl e, w1)"
  shows "P y"
proof -
  have "word' = word \<Longrightarrow> sz' = sz \<Longrightarrow> I st w \<Longrightarrow> P y"
    if "sample_positions word' sz' st w = Some y" for word' sz' st w y
    using that
  proof (induction word' sz' st w y rule: sample_positions.raw_induct [rotated 1, consumes 1])
    case (1 sp word' sz' st w y)
    note body = "1.hyps" [unfolded "1.prems"(1,2)] and inv = "1.prems"(3)
    show ?case
    proof (cases "length (fst st) < length word")
      case False
      with body have "y = (Inr st, w)" by simp
      with fin[OF inv False] show ?thesis by simp
    next
      case True
      obtain r w1 where s: "sample_step word sz st w = (r, w1)"
        by (cases "sample_step word sz st w")
      show ?thesis
      proof (cases r)
        case (Inl e)
        with body True s have "y = (Inl e, w1)" by simp
        with err[OF inv True] s Inl show ?thesis by simp
      next
        case (Inr st1)
        with body True s have "sp word sz st1 w1 = Some y" by simp
        moreover have "I st1 w1" using step[OF inv True] s Inr by simp
        ultimately show ?thesis using "1.IH"[of word sz st1 w1 y] by simp
      qed
    qed
  qed
  from this[OF run _ _ init] show ?thesis by simp
qed

lemma sample_positions_frame:
  assumes "sample_positions word sz st w = Some y"
  shows "grid (snd y) = grid w \<and> forbidden (snd y) = forbidden w"
  by (rule sample_positions_rule[OF assms,
        where I = "\<lambda>st' w'. grid w' = grid w \<and> forbidden w' = forbidden w"])
     (auto dest: sample_step_frame)

lemma sample_positions_inv:
  assumes "sample_positions word sz st w = Some y" and "sample_inv sz st"
  shows "fst y = Inr st' \<longrightarrow> sample_inv sz st' \<and> length word \<le> length (fst st')"
  by (rule sample_positions_rule[OF assms(1), where I = "\<lambda>st' w'. sample_inv sz st'"])
     (use assms(2) in \<open>auto dest: sample_step_inv\<close>)

lemma sample_positions_error:
  assumes "sample_positions word sz st w = Some y"
  shows "fst y = Inl e \<longrightarrow>
     (e = ValueError \<and> sz \<le> 0) \<or> (e = IndexError \<and> forbidden w \<noteq> {})"
  by (rule sample_positions_rule[OF assms, where I = "\<lambda>st' w'. forbidden w' = forbidden w"])
     (auto dest: sample_step_frame sample_step_error)

lemma sample_positions_len_le:
  assumes "sample_positions word sz st w = Some y" and "length (fst st) \<le> length word"
  shows "fst y = Inr st' \<longrightarrow> length (fst st') \<le> length word"
  by (rule sample_positions_rule[OF assms(1),
        where I = "\<lambda>st' w'. length (fst st') \<le> length word"])
     (use assms(2) in \<open>auto dest: sample_step_len\<close>)

lemma box_bound: "distinct ps \<Longrightarrow> set ps \<subseteq> box sz \<Longrightarrow> length ps \<le> nat sz * nat sz"
proof -
  assume d: "distinct ps" and s: "set ps \<subseteq> box sz"
  have "finite (box sz)" by (simp add: box_def)
  then have "card (set ps) \<le> card (box sz)" using s by (rule card_mono)
  then show ?thesis using d by (simp add: distinct_card box_def)
qed

lemma validate_True:
  "validate xs w = Inr True \<Longrightarrow> ((r, c), ch) \<in> set xs \<Longrightarrow> (r, c) \<in> forbidden w \<Longrightarrow>
     grid_get (grid w) r c = Inr ch"
  by (induction xs w rule: validate.induct) (auto split: if_splits sum.splits)

lemma validate_error: "validate xs w = Inl e \<Longrightarrow> e = IndexError \<and> forbidden w \<noteq> {}"
  by (induction xs w rule: validate.induct)
     (auto split: if_splits sum.splits dest: grid_get_error)

lemma reading_key: "(\<lambda>pos::coord. (fst pos, snd pos)) = (\<lambda>pos. pos)"
  by simp

text \<open>The three ways in which an attempt ends.\<close>

lemma attempt_cases:
  assumes "attempt word sz w = Some (res, w')"
  obtains (sampling) e where "sample_positions word sz ([], {}) w = Some (Inl e, w')" "res = Inl e"
  | (validation) positions chosen e where
      "sample_positions word sz ([], {}) w = Some (Inr (positions, chosen), w')"
      "validate (zip (sort positions) word) w' = Inl e" "res = Inl e"
  | (checked) positions chosen valid where
      "sample_positions word sz ([], {}) w = Some (Inr (positions, chosen), w')"
      "validate (zip (sort positions) word) w' = Inr valid" "res = Inr (valid, sort positions)"
proof (cases "sample_positions word sz ([], {}) w")
  case None
  with assms show ?thesis by (simp add: attempt_def)
next
  case (Some y)
  obtain r w1 where y: "y = (r, w1)" by (cases y)
  show ?thesis
  proof (cases r)
    case (Inl e)
    with assms Some y sampling show ?thesis by (simp add: attempt_def)
  next
    case (Inr st)
    obtain positions chosen where st: "st = (positions, chosen)" by (cases st)
    show ?thesis
    proof (cases "validate (zip (sort positions) word) w1")
      case (Inl e)
      with assms Some y Inr st validation show ?thesis
        by (simp add: attempt_def reading_key)
    next
      case v: (Inr valid)
      with assms Some y Inr st checked show ?thesis
        by (simp add: attempt_def reading_key)
    qed
  qed
qed

lemma attempt_frame:
  assumes "attempt word sz w = Some (res, w')"
  shows "grid w' = grid w \<and> forbidden w' = forbidden w"
  using assms by (cases rule: attempt_cases) (auto dest: sample_positions_frame)

lemma attempt_error:
  assumes "attempt word sz w = Some (Inl e, w')"
  shows "(e = ValueError \<and> sz \<le> 0) \<or> (e = IndexError \<and> forbidden w \<noteq> {})"
  using assms
proof (cases rule: attempt_cases)
  case (sampling e')
  with sample_positions_error[OF sampling(1), of e] show ?thesis by simp
next
  case (validation positions chosen e')
  with validate_error[OF validation(2)] sample_positions_frame[OF validation(1)]
  show ?thesis by simp
next
  case (checked positions chosen valid)
  then show ?thesis by simp
qed

lemma attempt_positions:
  assumes "attempt word sz w = Some (Inr (valid, ps), w')"
  shows "length ps = length word \<and> distinct ps \<and> sorted ps \<and> set ps \<subseteq> box sz"
  using assms
proof (cases rule: attempt_cases)
  case (checked positions chosen valid')
  have inv0: "sample_inv sz ([], {})" by (simp add: sample_inv_def)
  have inv: "sample_inv sz (positions, chosen)" and ge: "length word \<le> length positions"
    using sample_positions_inv[OF checked(1) inv0, of "(positions, chosen)"] by simp_all
  have le: "length positions \<le> length word"
    using sample_positions_len_le[OF checked(1), of "(positions, chosen)"] by simp
  have "distinct positions" "set positions \<subseteq> box sz"
    using inv unfolding sample_inv_def by auto
  with ge le checked(3) show ?thesis by simp
qed simp_all

lemma attempt_valid:
  assumes "attempt word sz w = Some (Inr (True, ps), w')"
    and "k < length ps" and "ps ! k \<in> forbidden w"
  shows "grid_get (grid w) (fst (ps ! k)) (snd (ps ! k)) = Inr (word ! k)"
proof -
  have v: "validate (zip ps word) w' = Inr True"
    using assms(1) by (cases rule: attempt_cases) simp_all
  have fr: "grid w' = grid w \<and> forbidden w' = forbidden w" using attempt_frame[OF assms(1)] .
  have len: "length ps = length word" using attempt_positions[OF assms(1)] by simp
  have "((fst (ps ! k), snd (ps ! k)), word ! k) \<in> set (zip ps word)"
    using assms(2) len by (auto simp: set_zip)
  from validate_True[OF v this] assms(3) fr show ?thesis by simp
qed

text \<open>The ways in which the loop of attempts ends.\<close>

lemma place_loop_exhausted:
  "max_attempts \<le> attempts \<Longrightarrow> place_loop word sz attempts w = Some (Inl RuntimeError, w)"
  by (subst place_loop.simps) simp

lemma place_loop_diverge:
  "attempts < max_attempts \<Longrightarrow> attempt word sz w = None \<Longrightarrow>
     place_loop word sz attempts w = None"
  by (subst place_loop.simps) simp

lemma place_loop_raise:
  "attempts < max_attempts \<Longrightarrow> attempt word sz w = Some (Inl e, w1) \<Longrightarrow>
     place_loop word sz attempts w = Some (Inl e, w1)"
  by (subst place_loop.simps) simp

lemma place_loop_return:
  "attempts < max_attempts \<Longrightarrow> attempt word sz w = Some (Inr (True, ps), w1) \<Longrightarrow>
     place_loop word sz attempts w = Some (Inr ps, w1)"
  by (subst place_loop.simps) simp

lemma place_loop_retry:
  "attempts < max_attempts \<Longrightarrow> attempt word sz w = Some (Inr (False, ps), w1) \<Longrightarrow>
     place_loop word sz attempts w = place_loop word sz (Suc attempts) w1"
  by (subst place_loop.simps) simp

text \<open>Invariant rule for the loop of attempts.\<close>

lemma place_loop_rule:
  assumes run: "place_loop word sz attempts w = Some y"
    and init: "I w"
    and retry: "\<And>w ps w1. I w \<Longrightarrow> attempt word sz w = Some (Inr (False, ps), w1) \<Longrightarrow> I w1"
    and exhausted: "\<And>w. I w \<Longrightarrow> P (Inl RuntimeError, w)"
    and raise: "\<And>w e w1. I w \<Longrightarrow> attempt word sz w = Some (Inl e, w1) \<Longrightarrow> P (Inl e, w1)"
    and return: "\<And>w ps w1. I w \<Longrightarrow> attempt word sz w = Some (Inr (True, ps), w1) \<Longrightarrow>
                   P (Inr ps, w1)"
  shows "P y"
proof -
  have "word' = word \<Longrightarrow> sz' = sz \<Longrightarrow> place_loop word' sz' attempts w = Some y \<Longrightarrow> I w \<Longrightarrow> P y"
    for word' sz' attempts w
  proof (induction word' sz' attempts w rule: place_loop.induct)
    case (1 word' sz' attempts w)
    note eqs = "1.prems"(1,2)
    have run': "place_loop word sz attempts w = Some y" using "1.prems"(3) eqs by simp
    note inv = "1.prems"(4)
    show ?case
    proof (cases "attempts < max_attempts")
      case False
      then have "place_loop word sz attempts w = Some (Inl RuntimeError, w)"
        by (simp add: place_loop_exhausted)
      with run' have "y = (Inl RuntimeError, w)" by simp
      with exhausted[OF inv] show ?thesis by simp
    next
      case True
      then have guard: "\<not> max_attempts < attempts + 1" by simp
      show ?thesis
      proof (cases "attempt word sz w")
        case None
        from place_loop_diverge[OF True None] run' show ?thesis by simp
      next
        case (Some a)
        obtain r w1 where a: "a = (r, w1)" by (cases a)
        show ?thesis
        proof (cases r)
          case (Inl e)
          with Some a have att: "attempt word sz w = Some (Inl e, w1)" by simp
          with place_loop_raise[OF True att] run' have "y = (Inl e, w1)" by simp
          with raise[OF inv att] show ?thesis by simp
        next
          case (Inr vp)
          obtain valid ps where vp: "vp = (valid, ps)" by (cases vp)
          show ?thesis
          proof (cases valid)
            case True
            with Some a Inr vp have att: "attempt word sz w = Some (Inr (True, ps), w1)" by simp
            with place_loop_return[OF \<open>attempts < max_attempts\<close> att] run'
            have "y = (Inr ps, w1)" by simp
            with return[OF inv att] show ?thesis by simp
          next
            case False
            have att: "attempt word sz w = Some (Inr (False, ps), w1)"
              using Some a Inr vp False by simp
            have next_run: "place_loop word' sz' (attempts + 1) w1 = Some y"
              using place_loop_retry[OF True att] run' eqs by simp
            have att': "attempt word' sz' w = Some a" using Some eqs by simp
            show ?thesis
              using "1.IH"[OF guard att' a[symmetric] Inr vp[symmetric] False eqs next_run
                  retry[OF inv att]] .
          qed
        qed
      qed
    qed
  qed
  from this[OF refl refl run init] show ?thesis .
qed

lemma place_loop_frame:
  assumes "place_loop word sz attempts w = Some y"
  shows "grid (snd y) = grid w \<and> forbidden (snd y) = forbidden w"
  by (rule place_loop_rule[OF assms,
        where I = "\<lambda>w'. grid w' = grid w \<and> forbidden w' = forbidden w"])
     (auto dest: attempt_frame)

lemma place_loop_success:
  assumes "place_loop word sz attempts w = Some y"
  shows "fst y = Inr ps \<longrightarrow>
     (\<exists>w0. attempt word sz w0 = Some (Inr (True, ps), snd y) \<and>
           grid w0 = grid w \<and> forbidden w0 = forbidden w)"
  by (rule place_loop_rule[OF assms,
        where I = "\<lambda>w'. grid w' = grid w \<and> forbidden w' = forbidden w"])
     (auto dest: attempt_frame)

lemma place_word_scattered_result:
  assumes "place_word_scattered word sz w = Some (Inr ps, w')"
  obtains w0 where "attempt word sz w0 = Some (Inr (True, ps), w')"
    "grid w0 = grid w" "forbidden w0 = forbidden w"
  using place_loop_success[of word sz 0 w "(Inr ps, w')" ps] assms
  by (auto simp: place_word_scattered_def)

lemma demo_step1:
  "sample_step [5, 6] 2 ([], {}) demo_world = (Inr ([(1, 0)], {(1, 0)}), demo_world1)"
  by (simp add: sample_step_pos demo_world_def demo_world1_def next_draw_def)

lemma demo_step2:
  "sample_step [5, 6] 2 ([(1, 0)], {(1, 0)}) demo_world1 =
     (Inr ([(1, 0), (0, 0)], {(0, 0), (1, 0)}), demo_world1)"
  by (simp add: sample_step_pos demo_world1_def next_draw_def)

lemma demo_sample:
  "sample_positions [5, 6] 2 ([], {}) demo_world =
     Some (Inr ([(1, 0), (0, 0)], {(0, 0), (1, 0)}), demo_world1)"
  by (simp add: sample_positions_step[OF _ demo_step1] sample_positions_step[OF _ demo_step2]
      sample_positions_done)

lemma demo_attempt:
  "attempt [5, 6] 2 demo_world = Some (Inr (True, [(0, 0), (1, 0)]), demo_world1)"
  by (simp add: attempt_def demo_sample reading_key less_eq_prod_def demo_world1_def)

lemma demo_run:
  "place_word_scattered [5, 6] 2 demo_world = Some (Inr [(0, 0), (1, 0)], demo_world1)"
  by (simp add: place_word_scattered_def place_loop_return[OF _ demo_attempt] max_attempts_def)

text \<open>
  C10: \<^verbatim>\<open>place_word_scattered\<close> changes neither the grid nor the occupancy set: whatever it
  returns or raises, both are as they were before the call.
\<close>

theorem place_word_scattered_frame:
  "place_word_scattered word sz w = Some (res, w') \<Longrightarrow>
     grid w' = grid w \<and> forbidden w' = forbidden w"
  using place_loop_frame[of word sz 0 w "(res, w')"] by (simp add: place_word_scattered_def)

theorem place_word_scattered_frame_witness:
  "place_word_scattered [5, 6] 2 demo_world = Some (Inr [(0, 0), (1, 0)], demo_world1) \<and>
   grid demo_world1 = grid demo_world \<and> forbidden demo_world1 = forbidden demo_world"
  using place_word_scattered_frame[OF demo_run] demo_run by simp

text \<open>
  C3: a successful call of \<^verbatim>\<open>place_word_scattered\<close> returns as many coordinates as the
  word has characters, pairwise distinct, and sorted in reading order, that is
  lexicographically by row and then column.
\<close>

theorem place_word_scattered_positions:
  "place_word_scattered word sz w = Some (Inr ps, w') \<Longrightarrow>
     length ps = length word \<and> distinct ps \<and>
     sorted_wrt (\<lambda>(r1, c1) (r2, c2). r1 < r2 \<or> (r1 = r2 \<and> c1 \<le> c2)) ps"
proof -
  assume run: "place_word_scattered word sz w = Some (Inr ps, w')"
  then obtain w0 where "attempt word sz w0 = Some (Inr (True, ps), w')"
    by (rule place_word_scattered_result)
  then have ps: "length ps = length word" "distinct ps" "sorted ps"
    using attempt_positions by blast+
  have "(\<lambda>(r1, c1) (r2, c2). r1 < r2 \<or> (r1 = r2 \<and> c1 \<le> c2)) = ((\<le>) :: coord \<Rightarrow> coord \<Rightarrow> bool)"
    by (auto simp: fun_eq_iff less_eq_prod_def)
  with ps show ?thesis by simp
qed

theorem place_word_scattered_positions_witness:
  "place_word_scattered [5, 6] 2 demo_world = Some (Inr [(0, 0), (1, 0)], demo_world1) \<and>
   length [(0, 0), (1, 0) :: coord] = length [5, 6 :: nat] \<and>
   distinct [(0, 0), (1, 0) :: coord] \<and>
   sorted_wrt (\<lambda>(r1, c1) (r2, c2). r1 < r2 \<or> (r1 = r2 \<and> c1 \<le> c2)) [(0, 0), (1, 0) :: coord]"
  using place_word_scattered_positions[OF demo_run] demo_run by simp

lemma grid_get_set:
  assumes "grid_set g r c ch = Inr g'" and "0 \<le> r" "0 \<le> c" "0 \<le> r'" "0 \<le> c'"
  shows "grid_get g' r' c' = (if (r', c') = (r, c) then Inr ch else grid_get g r' c')"
proof -
  from assms(1,2,3) have r: "nat r < length g" and c: "nat c < length (g ! nat r)"
    and g': "g' = g[nat r := (g ! nat r)[nat c := ch]]"
    by (auto simp: grid_set_def py_index_def py_setitem_def py_norm_def
        split: sum.splits if_splits)
  have eqr: "nat r' = nat r \<longleftrightarrow> r' = r" and eqc: "nat c' = nat c \<longleftrightarrow> c' = c"
    using assms(2-5) by auto
  show ?thesis
  proof (cases "r' = r")
    case True
    then show ?thesis using r c g' assms(2-5) eqc
      by (auto simp: grid_get_def py_index_def py_norm_def nth_list_update)
  next
    case False
    then have "nat r' \<noteq> nat r" using eqr by simp
    then show ?thesis using False g' assms(2-5)
      by (auto simp: grid_get_def py_index_def py_norm_def nth_list_update)
  qed
qed

lemma apply_pairs_frame:
  "apply_pairs xs w = (res, w') \<Longrightarrow> forbidden w' = forbidden w \<and> rng w' = rng w"
  by (induction xs w rule: apply_pairs.induct) (auto split: sum.splits)

lemma apply_pairs_read:
  "apply_pairs xs w = (Inr (), w') \<Longrightarrow> distinct (map fst xs) \<Longrightarrow>
     (\<forall>p \<in> fst ` set xs. 0 \<le> fst p \<and> 0 \<le> snd p) \<Longrightarrow> 0 \<le> r' \<Longrightarrow> 0 \<le> c' \<Longrightarrow>
     grid_get (grid w') r' c' =
       (case map_of xs (r', c') of Some ch \<Rightarrow> Inr ch | None \<Rightarrow> grid_get (grid w) r' c')"
proof (induction xs w rule: apply_pairs.induct)
  case (1 w)
  then show ?case by simp
next
  case (2 r c ch rest w)
  from 2(2) obtain g' where g': "grid_set (grid w) r c ch = Inr g'"
    and rest: "apply_pairs rest (w\<lparr>grid := g'\<rparr>) = (Inr (), w')"
    by (auto split: sum.splits)
  have nn: "0 \<le> r" "0 \<le> c" using 2(4) by auto
  have notin: "(r, c) \<notin> fst ` set rest" using 2(3) by auto
  have IH: "grid_get (grid w') r' c' =
       (case map_of rest (r', c') of Some ch \<Rightarrow> Inr ch | None \<Rightarrow> grid_get g' r' c')"
    using 2(1)[OF g' rest] 2(3,4,5,6) by (simp cong: option.case_cong)
  show ?case
  proof (cases "(r', c') = (r, c)")
    case True
    then have "map_of rest (r', c') = None" using notin by (simp add: map_of_eq_None_iff)
    with IH True grid_get_set[OF g' nn 2(5,6)] show ?thesis by simp
  next
    case False
    with IH grid_get_set[OF g' nn 2(5,6)] show ?thesis by (auto split: option.splits)
  qed
qed

lemma apply_word_read:
  assumes ap: "apply_word_to_grid ps word w = (Inr (), w')"
    and d: "distinct ps" and len: "length ps = length word" and box: "set ps \<subseteq> box sz"
  shows "read_word (grid w') ps = map Inr word"
    and "0 \<le> r' \<Longrightarrow> 0 \<le> c' \<Longrightarrow> (r', c') \<notin> set ps \<Longrightarrow>
           grid_get (grid w') r' c' = grid_get (grid w) r' c'"
proof -
  have ap': "apply_pairs (zip ps word) w = (Inr (), w')" using ap by (simp add: apply_word_to_grid_def)
  have d': "distinct (map fst (zip ps word))" using d len by simp
  have nn: "\<forall>p \<in> fst ` set (zip ps word). 0 \<le> fst p \<and> 0 \<le> snd p"
    using box len by (auto simp: box_def dest!: set_zip_leftD)
  note rd = apply_pairs_read[OF ap' d' nn]
  show "read_word (grid w') ps = map Inr word"
  proof (rule nth_equalityI)
    show "length (read_word (grid w') ps) = length (map Inr word)" using len by (simp add: read_word_def)
  next
    fix i assume "i < length (read_word (grid w') ps)"
    then have i: "i < length ps" by (simp add: read_word_def)
    obtain r c where rc: "ps ! i = (r, c)" by (cases "ps ! i")
    have "(r, c) \<in> box sz" using box i rc by (metis nth_mem subsetD)
    then have nn': "0 \<le> r" "0 \<le> c" by (auto simp: box_def)
    have "map_of (zip ps word) (ps ! i) = Some (word ! i)"
      using map_of_zip_nth[OF len d] i len by simp
    with rd[OF nn'] rc have "grid_get (grid w') r c = Inr (word ! i)" by simp
    then show "read_word (grid w') ps ! i = map Inr word ! i"
      using i len rc by (simp add: read_word_def)
  qed
  show "grid_get (grid w') r' c' = grid_get (grid w) r' c'"
    if "0 \<le> r'" "0 \<le> c'" "(r', c') \<notin> set ps"
  proof -
    have "map_of (zip ps word) (r', c') = None"
      using that(3) len by (simp add: map_of_zip_is_None)
    with rd[OF that(1,2)] show ?thesis by simp
  qed
qed

lemma demo_apply:
  "apply_word_to_grid [(0, 0), (1, 0)] [5, 6] demo_world1 = (Inr (), demo_world2)"
  by (simp add: apply_word_to_grid_def grid_set_def py_index_def py_setitem_def py_norm_def
      demo_world1_def demo_world2_def)

lemma commit_word:
  assumes place: "place_word_scattered word sz w = Some (Inr ps, w1)"
    and ap: "apply_word_to_grid ps word w1 = (Inr (), w2)"
  shows "forbidden w2 = forbidden w"
    and "read_word (grid w2) ps = map Inr word"
    and "set ps \<subseteq> box sz"
    and "0 \<le> r \<Longrightarrow> 0 \<le> c \<Longrightarrow> (r, c) \<in> forbidden w \<Longrightarrow>
           grid_get (grid w2) r c = grid_get (grid w) r c"
proof -
  from place obtain w0 where att: "attempt word sz w0 = Some (Inr (True, ps), w1)"
    and g0: "grid w0 = grid w" and f0: "forbidden w0 = forbidden w"
    by (rule place_word_scattered_result)
  have ps: "length ps = length word" "distinct ps" "set ps \<subseteq> box sz"
    using attempt_positions[OF att] by blast+
  have fr1: "grid w1 = grid w" "forbidden w1 = forbidden w"
    using attempt_frame[OF att] g0 f0 by simp_all
  show "forbidden w2 = forbidden w"
    using apply_pairs_frame[of "zip ps word" w1 "Inr ()" w2] ap fr1
    by (simp add: apply_word_to_grid_def)
  show rd: "read_word (grid w2) ps = map Inr word"
    using apply_word_read(1)[OF ap ps(2,1,3)] .
  show "set ps \<subseteq> box sz" by (rule ps(3))
  show "grid_get (grid w2) r c = grid_get (grid w) r c"
    if nn: "0 \<le> r" "0 \<le> c" and occ: "(r, c) \<in> forbidden w"
  proof (cases "(r, c) \<in> set ps")
    case False
    from apply_word_read(2)[OF ap ps(2,1,3) nn False] fr1 show ?thesis by simp
  next
    case True
    then obtain k where k: "k < length ps" "ps ! k = (r, c)" by (auto simp: in_set_conv_nth)
    have "read_word (grid w2) ps ! k = map Inr word ! k" using rd by simp
    then have new: "grid_get (grid w2) r c = Inr (word ! k)"
      using k ps(1) by (simp add: read_word_def)
    have "grid_get (grid w0) (fst (ps ! k)) (snd (ps ! k)) = Inr (word ! k)"
      using attempt_valid[OF att k(1)] k(2) occ f0 by simp
    with new k(2) g0 show ?thesis by simp
  qed
qed

lemma read_word_cong:
  "(\<And>r c. (r, c) \<in> set ps \<Longrightarrow> grid_get g' r c = grid_get g r c) \<Longrightarrow>
     read_word g' ps = read_word g ps"
  by (auto simp: read_word_def)

lemma placed_commit:
  assumes inv: "placed w wps ws"
    and place: "place_word_scattered word sz w = Some (Inr ps, w1)"
    and ap: "apply_word_to_grid ps word w1 = (Inr (), w2)"
  shows "placed (w2\<lparr>forbidden := forbidden w2 \<union> set ps\<rparr>) (wps @ [ps]) (ws @ [word])"
proof -
  note cw = commit_word[OF place ap]
  have old: "read_word (grid w2) qs = map Inr wd \<and> set qs \<subseteq> forbidden w2 \<union> set ps \<and>
              (\<forall>p \<in> set qs. 0 \<le> fst p \<and> 0 \<le> snd p)"
    if q: "read_word (grid w) qs = map Inr wd \<and> set qs \<subseteq> forbidden w \<and>
           (\<forall>p \<in> set qs. 0 \<le> fst p \<and> 0 \<le> snd p)" for qs wd
  proof -
    have "read_word (grid w2) qs = read_word (grid w) qs"
    proof (rule read_word_cong)
      fix r c assume "(r, c) \<in> set qs"
      with q have "0 \<le> r" "0 \<le> c" "(r, c) \<in> forbidden w" by auto
      then show "grid_get (grid w2) r c = grid_get (grid w) r c" by (rule cw(4))
    qed
    with q cw(1) show ?thesis by auto
  qed
  have new: "\<forall>p \<in> set ps. 0 \<le> fst p \<and> 0 \<le> snd p"
    using cw(3) by (auto simp: box_def)
  have "list_all2 (\<lambda>ps' wd. read_word (grid w2) ps' = map Inr wd \<and>
            set ps' \<subseteq> forbidden w2 \<union> set ps \<and>
            (\<forall>p \<in> set ps'. 0 \<le> fst p \<and> 0 \<le> snd p)) wps ws"
    using inv unfolding placed_def by (rule list_all2_mono) (rule old)
  with cw(2) new show ?thesis
    unfolding placed_def by (simp add: list_all2_appendI)
qed

lemma place_words_Cons:
  assumes "place_words (word # rest) sz (masks, wps) w = Some (Inr acc, w')"
  obtains ps w1 w2 where "place_word_scattered word sz w = Some (Inr ps, w1)"
    and "apply_word_to_grid ps word w1 = (Inr (), w2)"
    and "place_words rest sz (masks @ [set ps], wps @ [ps])
           (w2\<lparr>forbidden := forbidden w2 \<union> set ps\<rparr>) = Some (Inr acc, w')"
proof (cases "place_word_scattered word sz w")
  case None
  with assms show ?thesis by simp
next
  case (Some y)
  obtain r w1 where y: "y = (r, w1)" by (cases y)
  show ?thesis
  proof (cases r)
    case (Inl e)
    with assms Some y show ?thesis by simp
  next
    case (Inr ps)
    obtain r2 w2 where a: "apply_word_to_grid ps word w1 = (r2, w2)"
      by (cases "apply_word_to_grid ps word w1")
    show ?thesis
    proof (cases r2)
      case (Inl e)
      with assms Some y Inr a show ?thesis by simp
    next
      case u: (Inr u)
      with assms Some y Inr a that[of ps w1 w2] show ?thesis by simp
    qed
  qed
qed

lemma place_words_inv:
  "place_words ws sz (masks, wps) w = Some (Inr (masks', wps'), w') \<Longrightarrow> placed w wps done \<Longrightarrow>
     placed w' wps' (done @ ws) \<and>
     (\<exists>new. wps' = wps @ new \<and> masks' = masks @ map set new \<and> length new = length ws \<and>
            forbidden w' = forbidden w \<union> \<Union> (set ` set new))"
proof (induction ws arbitrary: masks wps w "done")
  case Nil
  then show ?case by simp
next
  case (Cons word rest)
  from Cons.prems(1) obtain ps w1 w2 where
    place: "place_word_scattered word sz w = Some (Inr ps, w1)"
    and ap: "apply_word_to_grid ps word w1 = (Inr (), w2)"
    and rest: "place_words rest sz (masks @ [set ps], wps @ [ps])
           (w2\<lparr>forbidden := forbidden w2 \<union> set ps\<rparr>) = Some (Inr (masks', wps'), w')"
    by (rule place_words_Cons)
  let ?w3 = "w2\<lparr>forbidden := forbidden w2 \<union> set ps\<rparr>"
  have inv3: "placed ?w3 (wps @ [ps]) (done @ [word])"
    using placed_commit[OF Cons.prems(2) place ap] .
  from Cons.IH[OF rest inv3] obtain new where
    p: "placed w' wps' ((done @ [word]) @ rest)"
    and new: "wps' = (wps @ [ps]) @ new" "masks' = (masks @ [set ps]) @ map set new"
      "length new = length rest" "forbidden w' = forbidden ?w3 \<union> \<Union> (set ` set new)"
    by blast
  have f2: "forbidden w2 = forbidden w" using commit_word(1)[OF place ap] .
  have "wps' = wps @ (ps # new) \<and> masks' = masks @ map set (ps # new) \<and>
        length (ps # new) = length (word # rest) \<and>
        forbidden w' = forbidden w \<union> \<Union> (set ` set (ps # new))"
    using new f2 by auto
  with p show ?case by (metis append.assoc append_Cons append_Nil)
qed

lemma demo_commit:
  "demo_world2\<lparr>forbidden := insert (0, 0) (insert (1, 0) (forbidden demo_world2))\<rparr> =
     demo_world3"
  unfolding demo_world2_def demo_world3_def by simp

lemma demo_world3_fields:
  "grid demo_world3 = [[5, 7], [6, 7]]" "forbidden demo_world3 = {(0, 0), (1, 0)}"
  by (simp_all add: demo_world3_def)

lemma demo_second_step:
  "sample_step [5] 2 ([], {}) demo_world3 = (Inr ([(0, 0)], {(0, 0)}), demo_world3)"
  by (simp add: sample_step_pos demo_world3_def next_draw_def grid_get_def py_index_def
      py_norm_def)

lemma demo_second_sample:
  "sample_positions [5] 2 ([], {}) demo_world3 = Some (Inr ([(0, 0)], {(0, 0)}), demo_world3)"
  by (simp add: sample_positions_step[OF _ demo_second_step] sample_positions_done)

lemma demo_second_attempt:
  "attempt [5] 2 demo_world3 = Some (Inr (True, [(0, 0)]), demo_world3)"
  by (simp add: attempt_def demo_second_sample reading_key demo_world3_fields grid_get_def
      py_index_def py_norm_def)

lemma demo_second_run:
  "place_word_scattered [5] 2 demo_world3 = Some (Inr [(0, 0)], demo_world3)"
  by (simp add: place_word_scattered_def place_loop_return[OF _ demo_second_attempt]
      max_attempts_def)

lemma demo_second_apply:
  "apply_word_to_grid [(0, 0)] [5] demo_world3 = (Inr (), demo_world3)"
  by (simp add: apply_word_to_grid_def grid_set_def py_index_def py_setitem_def py_norm_def
      demo_world3_def)

lemma demo_second_commit:
  "demo_world3\<lparr>forbidden := insert (0, 0) (forbidden demo_world3)\<rparr> = demo_world3"
  unfolding demo_world3_def by (simp add: insert_absorb)

lemma demo_first_word:
  "place_words [[5, 6]] 2 ([], []) demo_world =
     Some (Inr ([{(0, 0), (1, 0)}], [[(0, 0), (1, 0)]]), demo_world3)"
  by (simp add: demo_run demo_apply demo_commit)

lemma demo_two_words:
  "place_words [[5, 6], [5]] 2 ([], []) demo_world =
     Some (Inr ([{(0, 0), (1, 0)}, {(0, 0)}], [[(0, 0), (1, 0)], [(0, 0)]]), demo_world3)"
  by (simp add: demo_run demo_apply demo_commit demo_second_run demo_second_apply
      demo_second_commit)

lemma placed_read:
  assumes "placed w wps ws" and "i < length wps" and "a < length (wps ! i)"
  shows "grid_get (grid w) (fst (wps ! i ! a)) (snd (wps ! i ! a)) = Inr (ws ! i ! a)"
proof -
  have rd: "read_word (grid w) (wps ! i) = map Inr (ws ! i)"
    using assms(1,2) unfolding placed_def by (auto dest: list_all2_nthD)
  then have "length (ws ! i) = length (wps ! i)"
    by (metis length_map read_word_def)
  moreover have "read_word (grid w) (wps ! i) ! a = map Inr (ws ! i) ! a" using rd by simp
  ultimately show ?thesis using assms(3) by (simp add: read_word_def case_prod_beta)
qed

lemma placed_Nil: "placed w [] []"
  by (simp add: placed_def)

lemma place_words_append:
  "place_words (xs @ ys) sz acc w =
     (case place_words xs sz acc w of
        None \<Rightarrow> None
      | Some (Inl e, w1) \<Rightarrow> Some (Inl e, w1)
      | Some (Inr acc1, w1) \<Rightarrow> place_words ys sz acc1 w1)"
proof (induction xs arbitrary: acc w)
  case Nil
  then show ?case by simp
next
  case (Cons x xs)
  obtain masks wps where acc: "acc = (masks, wps)" by (cases acc)
  show ?case unfolding acc
    by (simp add: Cons.IH split: option.split sum.split prod.split)
qed

lemma place_words_prefix:
  assumes "place_words (xs @ ys) sz acc w = Some (Inr acc', w')"
  obtains acc1 w1 where "place_words xs sz acc w = Some (Inr acc1, w1)"
    and "place_words ys sz acc1 w1 = Some (Inr acc', w')"
  using assms unfolding place_words_append
  by (auto split: option.splits sum.splits prod.splits)

lemma place_words_placed:
  assumes "place_words ws sz ([], []) w = Some (Inr (masks, wps), w')"
  shows "placed w' wps ws"
    and "length wps = length ws"
    and "masks = map set wps"
    and "forbidden w' = forbidden w \<union> \<Union> (set ` set wps)"
  using place_words_inv[OF assms placed_Nil] by auto

lemma demo_read_first: "read_word (grid demo_world3) [(0, 0), (1, 0)] = [Inr 5, Inr 6]"
  by (simp add: read_word_def grid_get_def py_index_def py_norm_def demo_world3_fields)

lemma demo_read_second: "read_word (grid demo_world3) [(0, 0)] = [Inr 5]"
  by (simp add: read_word_def grid_get_def py_index_def py_norm_def demo_world3_fields)

text \<open>
  C1: every word placed by \<^verbatim>\<open>place_word_scattered\<close> and written by \<^verbatim>\<open>apply_word_to_grid\<close>
  can be read back from the grid that the placement loop leaves: for each word, reading this
  grid at the word's recorded coordinates, in their stored order, gives exactly the characters
  of the word (the i-th coordinate holds the i-th character), also after all later words
  have been written.
\<close>

theorem placed_words_read_back:
  assumes "place_words ws sz ([], []) w = Some (Inr (masks, wps), w')"
  shows "length wps = length ws \<and>
         (\<forall>i < length ws. read_word (grid w') (wps ! i) = map Inr (ws ! i))"
proof -
  have p: "placed w' wps ws" and len: "length wps = length ws"
    using place_words_placed[OF assms] by simp_all
  have "read_word (grid w') (wps ! i) = map Inr (ws ! i)" if "i < length ws" for i
    using p that len unfolding placed_def by (auto dest: list_all2_nthD)
  with len show ?thesis by simp
qed

theorem placed_words_read_back_witness:
  "place_words [[5, 6], [5]] 2 ([], []) demo_world =
     Some (Inr ([{(0, 0), (1, 0)}, {(0, 0)}], [[(0, 0), (1, 0)], [(0, 0)]]), demo_world3) \<and>
   read_word (grid demo_world3) [(0, 0), (1, 0)] = map Inr [5, 6] \<and>
   read_word (grid demo_world3) [(0, 0)] = map Inr [5]"
proof -
  note t = placed_words_read_back[OF demo_two_words, THEN conjunct2, rule_format]
  have "read_word (grid demo_world3) [(0, 0), (1, 0)] = map Inr [5, 6]"
    using t[of 0] by simp
  moreover have "read_word (grid demo_world3) [(0, 0)] = map Inr [5]"
    using t[of 1] by simp
  ultimately show ?thesis using demo_two_words by simp
qed

text \<open>
  C2: after the placement sequence, at every coordinate that two placed words share, the
  grid holds the letter that each of the two words assigns to it by its position in the
  word. Within one placement, every returned coordinate that was already in the occupancy
  set holds, in the grid before the call, exactly the letter the new word assigns to it:
  an attempt with a mismatch is never returned.
\<close>

theorem shared_cells_consistent:
  "(place_words ws sz ([], []) w = Some (Inr (masks, wps), w') \<longrightarrow>
      (\<forall>i j a b. i < length wps \<and> j < length wps \<and> a < length (wps ! i) \<and>
            b < length (wps ! j) \<and> wps ! i ! a = wps ! j ! b \<longrightarrow>
         grid_get (grid w') (fst (wps ! i ! a)) (snd (wps ! i ! a)) = Inr (ws ! i ! a) \<and>
         grid_get (grid w') (fst (wps ! i ! a)) (snd (wps ! i ! a)) = Inr (ws ! j ! b))) \<and>
   (place_word_scattered word sz v = Some (Inr ps, v') \<longrightarrow>
      (\<forall>k < length ps. ps ! k \<in> forbidden v \<longrightarrow>
         grid_get (grid v) (fst (ps ! k)) (snd (ps ! k)) = Inr (word ! k)))"
proof (intro conjI impI allI)
  fix i j a b
  assume run: "place_words ws sz ([], []) w = Some (Inr (masks, wps), w')"
    and ix: "i < length wps \<and> j < length wps \<and> a < length (wps ! i) \<and>
            b < length (wps ! j) \<and> wps ! i ! a = wps ! j ! b"
  have p: "placed w' wps ws" using place_words_placed(1)[OF run] .
  show "grid_get (grid w') (fst (wps ! i ! a)) (snd (wps ! i ! a)) = Inr (ws ! i ! a)"
    using placed_read[OF p, of i a] ix by simp
  show "grid_get (grid w') (fst (wps ! i ! a)) (snd (wps ! i ! a)) = Inr (ws ! j ! b)"
    using placed_read[OF p, of j b] ix by simp
next
  fix k
  assume run: "place_word_scattered word sz v = Some (Inr ps, v')"
    and k: "k < length ps" and occ: "ps ! k \<in> forbidden v"
  from run obtain w0 where att: "attempt word sz w0 = Some (Inr (True, ps), v')"
    and g0: "grid w0 = grid v" and f0: "forbidden w0 = forbidden v"
    by (rule place_word_scattered_result)
  from attempt_valid[OF att k] occ f0 g0
  show "grid_get (grid v) (fst (ps ! k)) (snd (ps ! k)) = Inr (word ! k)" by simp
qed

theorem shared_cells_consistent_witness:
  "place_words [[5, 6], [5]] 2 ([], []) demo_world =
     Some (Inr ([{(0, 0), (1, 0)}, {(0, 0)}], [[(0, 0), (1, 0)], [(0, 0)]]), demo_world3) \<and>
   place_word_scattered [5] 2 demo_world3 = Some (Inr [(0, 0)], demo_world3) \<and>
   (0, 0) \<in> forbidden demo_world3 \<and>
   grid_get (grid demo_world3) 0 0 = Inr 5"
proof -
  note shared = shared_cells_consistent[THEN conjunct1, rule_format, OF demo_two_words,
      of 0 1 0 0]
  note checked = shared_cells_consistent[THEN conjunct2, rule_format, OF demo_second_run,
      of 0]
  have occ: "(0, 0) \<in> forbidden demo_world3" by (simp add: demo_world3_fields)
  have "grid_get (grid demo_world3) 0 0 = Inr 5" using shared by simp
  moreover have "grid_get (grid demo_world3) 0 0 = Inr 5" using checked occ by simp
  ultimately show ?thesis using demo_two_words demo_second_run occ by simp
qed

text \<open>
  C9: the occupancy set only grows along the placement sequence. In a run that places the
  words \<open>ws\<close>, then \<open>word\<close>, then \<open>rest\<close>, the occupancy set after \<open>word\<close> contains the
  occupancy set before it, and each of the two is the union of the coordinate sets of the
  words placed so far (the occupancy set is empty at the start, as in the main program).
\<close>

theorem occupancy_grows:
  assumes "place_words (ws @ word # rest) sz ([], []) w = Some (Inr acc, w')"
    and "forbidden w = {}"
  shows "\<exists>m1 p1 w1 m2 p2 w2.
     place_words ws sz ([], []) w = Some (Inr (m1, p1), w1) \<and>
     place_words (ws @ [word]) sz ([], []) w = Some (Inr (m2, p2), w2) \<and>
     forbidden w1 \<subseteq> forbidden w2 \<and>
     forbidden w1 = \<Union> (set ` set p1) \<and>
     forbidden w2 = \<Union> (set ` set p2) \<and>
     forbidden w2 = forbidden w1 \<union> set (last p2)"
proof -
  from assms(1) obtain acc1 w1 where r1: "place_words ws sz ([], []) w = Some (Inr acc1, w1)"
    and r1': "place_words (word # rest) sz acc1 w1 = Some (Inr acc, w')"
    by (rule place_words_prefix)
  obtain m1 p1 where acc1: "acc1 = (m1, p1)" by (cases acc1)
  from r1' have "place_words ([word] @ rest) sz acc1 w1 = Some (Inr acc, w')" by simp
  then obtain acc2 w2 where r2: "place_words [word] sz acc1 w1 = Some (Inr acc2, w2)"
    by (rule place_words_prefix)
  obtain m2 p2 where acc2: "acc2 = (m2, p2)" by (cases acc2)
  have r12: "place_words (ws @ [word]) sz ([], []) w = Some (Inr (m2, p2), w2)"
    using r1 r2 acc2 by (simp add: place_words_append)
  have f1: "forbidden w1 = \<Union> (set ` set p1)"
    using place_words_placed(4)[OF r1[unfolded acc1]] assms(2) by simp
  have f2: "forbidden w2 = \<Union> (set ` set p2)"
    using place_words_placed(4)[OF r12] assms(2) by simp
  from r2 obtain ps v1 v2 where
    "place_words [] sz (m1 @ [set ps], p1 @ [ps]) (v2\<lparr>forbidden := forbidden v2 \<union> set ps\<rparr>) =
       Some (Inr acc2, w2)"
    and cw: "place_word_scattered word sz w1 = Some (Inr ps, v1)"
      "apply_word_to_grid ps word v1 = (Inr (), v2)"
    unfolding acc1 by (rule place_words_Cons)
  then have p2: "p2 = p1 @ [ps]" and w2: "w2 = v2\<lparr>forbidden := forbidden v2 \<union> set ps\<rparr>"
    using acc2 by simp_all
  have "forbidden v2 = forbidden w1" using commit_word(1)[OF cw] .
  then have step: "forbidden w2 = forbidden w1 \<union> set (last p2)" using p2 w2 by simp
  with r1 acc1 r12 f1 f2 show ?thesis by blast
qed

theorem occupancy_grows_witness:
  "place_words ([[5, 6]] @ [5] # []) 2 ([], []) demo_world =
     Some (Inr ([{(0, 0), (1, 0)}, {(0, 0)}], [[(0, 0), (1, 0)], [(0, 0)]]), demo_world3) \<and>
   forbidden demo_world = {} \<and>
   (\<exists>m1 p1 w1 m2 p2 w2.
     place_words [[5, 6]] 2 ([], []) demo_world = Some (Inr (m1, p1), w1) \<and>
     place_words ([[5, 6]] @ [[5]]) 2 ([], []) demo_world = Some (Inr (m2, p2), w2) \<and>
     forbidden w1 \<subseteq> forbidden w2 \<and>
     forbidden w1 = \<Union> (set ` set p1) \<and>
     forbidden w2 = \<Union> (set ` set p2) \<and>
     forbidden w2 = forbidden w1 \<union> set (last p2))"
proof -
  have run: "place_words ([[5, 6]] @ [5] # []) 2 ([], []) demo_world =
     Some (Inr ([{(0, 0), (1, 0)}, {(0, 0)}], [[(0, 0), (1, 0)], [(0, 0)]]), demo_world3)"
    using demo_two_words by simp
  have empty: "forbidden demo_world = {}" by (simp add: demo_world_def)
  from occupancy_grows[OF run empty] run empty show ?thesis by blast
qed

lemma place_loop_runtime_error:
  "attempts \<le> max_attempts \<Longrightarrow>
     (place_loop word sz attempts w = Some (Inl RuntimeError, w')) =
     (discarded_attempts (max_attempts - attempts) word sz w = Some w')"
proof (induction word sz attempts w rule: place_loop.induct)
  case (1 word sz attempts w)
  show ?case
  proof (cases "attempts < max_attempts")
    case False
    with "1.prems" have "max_attempts - attempts = 0" by simp
    with False show ?thesis by (auto simp: place_loop_exhausted)
  next
    case True
    then have guard: "\<not> max_attempts < attempts + 1" by simp
    have suc: "max_attempts - attempts = Suc (max_attempts - (attempts + 1))"
      using True by simp
    show ?thesis
    proof (cases "attempt word sz w")
      case None
      with place_loop_diverge[OF True None] suc show ?thesis by simp
    next
      case (Some a)
      obtain r w1 where a: "a = (r, w1)" by (cases a)
      show ?thesis
      proof (cases r)
        case (Inl e)
        with Some a have att: "attempt word sz w = Some (Inl e, w1)" by simp
        have "e \<noteq> RuntimeError" using attempt_error[OF att] by auto
        with place_loop_raise[OF True att] att suc show ?thesis by simp
      next
        case (Inr vp)
        obtain valid ps where vp: "vp = (valid, ps)" by (cases vp)
        show ?thesis
        proof (cases valid)
          case True
          with Some a Inr vp have att: "attempt word sz w = Some (Inr (True, ps), w1)" by simp
          with place_loop_return[OF \<open>attempts < max_attempts\<close> att] suc show ?thesis by simp
        next
          case False
          with Some a Inr vp have att: "attempt word sz w = Some (Inr (False, ps), w1)"
            by simp
          have "(place_loop word sz (attempts + 1) w1 = Some (Inl RuntimeError, w')) =
                (discarded_attempts (max_attempts - (attempts + 1)) word sz w1 = Some w')"
            using "1.IH"[OF guard Some a[symmetric] Inr vp[symmetric] False] True by simp
          with place_loop_retry[OF True att] att suc show ?thesis by simp
        qed
      qed
    qed
  qed
qed

lemma exhaust_fields:
  "grid exhaust_world = [[6, 6], [5, 5]]"
  "forbidden exhaust_world = {(0, 0), (0, 1), (1, 0), (1, 1)}"
  "rng exhaust_world = (\<lambda>n. n div 2 mod 2)"
  "grid exhaust_world_mid = [[6, 6], [5, 5]]"
  "forbidden exhaust_world_mid = {(0, 0), (0, 1), (1, 0), (1, 1)}"
  "rng exhaust_world_mid = (\<lambda>n. Suc (n div 2) mod 2)"
  by (simp_all add: exhaust_world_def exhaust_world_mid_def)

lemma exhaust_draws:
  "exhaust_world\<lparr>rng := \<lambda>n. Suc (Suc n) div 2 mod 2\<rparr> = exhaust_world_mid"
  "exhaust_world_mid\<lparr>rng := \<lambda>n. Suc (Suc (Suc n) div 2) mod 2\<rparr> = exhaust_world"
  unfolding exhaust_world_def exhaust_world_mid_def by (simp_all add: fun_eq_iff)

lemma exhaust_step1:
  "sample_step [5, 6] 2 ([], {}) exhaust_world = (Inr ([(0, 0)], {(0, 0)}), exhaust_world_mid)"
  by (simp add: sample_step_pos exhaust_fields next_draw_def grid_get_def py_index_def
      py_norm_def exhaust_draws)

lemma exhaust_step2:
  "sample_step [5, 6] 2 ([(0, 0)], {(0, 0)}) exhaust_world_mid =
     (Inr ([(0, 0), (1, 1)], {(1, 1), (0, 0)}), exhaust_world)"
  by (simp add: sample_step_pos exhaust_fields next_draw_def grid_get_def py_index_def
      py_norm_def exhaust_draws)

lemma exhaust_sample:
  "sample_positions [5, 6] 2 ([], {}) exhaust_world =
     Some (Inr ([(0, 0), (1, 1)], {(1, 1), (0, 0)}), exhaust_world)"
  by (simp add: sample_positions_step[OF _ exhaust_step1]
      sample_positions_step[OF _ exhaust_step2] sample_positions_done)

lemma exhaust_attempt:
  "attempt [5, 6] 2 exhaust_world = Some (Inr (False, [(0, 0), (1, 1)]), exhaust_world)"
  by (simp add: attempt_def exhaust_sample reading_key less_eq_prod_def exhaust_fields
      grid_get_def py_index_def py_norm_def)

lemma exhaust_discarded: "discarded_attempts n [5, 6] 2 exhaust_world = Some exhaust_world"
  by (induction n) (simp_all add: exhaust_attempt)

text \<open>
  C5: \<^verbatim>\<open>place_word_scattered\<close> raises its \<^verbatim>\<open>RuntimeError\<close> exactly when the maximum number of
  attempts, 5000, is exceeded, that is when the first 5000 attempts have all been made and
  discarded. What it returns then is the error alone, with no coordinates.
\<close>

theorem attempts_exhausted:
  "max_attempts = 5000 \<and>
   (place_word_scattered word sz w = Some (Inl RuntimeError, w')) =
   (discarded_attempts max_attempts word sz w = Some w')"
  using place_loop_runtime_error[of 0 word sz w w']
  by (simp add: place_word_scattered_def) (simp add: max_attempts_def)

theorem attempts_exhausted_witness:
  "discarded_attempts max_attempts [5, 6] 2 exhaust_world = Some exhaust_world \<and>
   place_word_scattered [5, 6] 2 exhaust_world = Some (Inl RuntimeError, exhaust_world)"
  using attempts_exhausted[of "[5, 6]" 2 exhaust_world exhaust_world] exhaust_discarded
  by simp

text \<open>A word longer than the number of cells: the sampling loop cannot end with a result,
  since it would hold more distinct coordinates than the grid has.\<close>

lemma oversized_sample:
  assumes "0 < sz" and "sz * sz < int (length word)"
    and "sample_positions word sz ([], {}) w = Some (res, w')"
  shows "res = Inl IndexError \<and> forbidden w \<noteq> {}"
proof (cases res)
  case (Inl e)
  with sample_positions_error[OF assms(3), of e] assms(1) show ?thesis by simp
next
  case (Inr st)
  have inv0: "sample_inv sz ([], {})" by (simp add: sample_inv_def)
  have inv: "sample_inv sz st" and ge: "length word \<le> length (fst st)"
    using sample_positions_inv[OF assms(3) inv0, of st] Inr by simp_all
  have "length (fst st) \<le> nat sz * nat sz"
    using inv box_bound[of "fst st" sz] unfolding sample_inv_def by blast
  with ge have "length word \<le> nat sz * nat sz" by (rule order_trans)
  then have "int (length word) \<le> int (nat sz * nat sz)" by (rule iffD2[OF of_nat_le_iff])
  also have "\<dots> = sz * sz" using assms(1) by (simp only: of_nat_mult) simp
  finally show ?thesis using assms(2) by simp
qed

lemma oversized_attempt:
  assumes "0 < sz" and "sz * sz < int (length word)"
    and "attempt word sz w = Some (res, w')"
  shows "res = Inl IndexError \<and> forbidden w \<noteq> {}"
  using assms(3)
proof (cases rule: attempt_cases)
  case (sampling e)
  with oversized_sample[OF assms(1,2) sampling(1)] show ?thesis by simp
next
  case (validation positions chosen e)
  with oversized_sample[OF assms(1,2) validation(1)] show ?thesis by simp
next
  case (checked positions chosen valid)
  with oversized_sample[OF assms(1,2) checked(1)] show ?thesis by simp
qed

lemma oversized_word:
  assumes "0 < sz" and "sz * sz < int (length word)"
    and "place_word_scattered word sz w = Some (res, w')"
  shows "res = Inl IndexError \<and> forbidden w \<noteq> {}"
proof -
  have lt: "0 < max_attempts" by (simp add: max_attempts_def)
  show ?thesis
  proof (cases "attempt word sz w")
    case None
    from place_loop_diverge[OF lt None] assms(3) show ?thesis
      by (simp add: place_word_scattered_def)
  next
    case (Some a)
    obtain r w1 where a: "a = (r, w1)" by (cases a)
    with Some have att: "attempt word sz w = Some (r, w1)" by simp
    from oversized_attempt[OF assms(1,2) att] have r: "r = Inl IndexError"
      and occ: "forbidden w \<noteq> {}" by simp_all
    from place_loop_raise[OF lt att[unfolded r]] assms(3) occ show ?thesis
      by (simp add: place_word_scattered_def)
  qed
qed

lemma oversized_word_diverges:
  assumes "0 < sz" and "sz * sz < int (length word)" and "forbidden w = {}"
  shows "place_word_scattered word sz w = None"
proof (cases "place_word_scattered word sz w")
  case None
  then show ?thesis .
next
  case (Some y)
  obtain res w' where "y = (res, w')" by (cases y)
  with Some oversized_word[OF assms(1,2), of w res w'] assms(3) show ?thesis by simp
qed


lemma sample_step_letters:
  assumes "0 < sz" and "sample_step word sz st v = (Inr st1, v1)"
    and "\<forall>p \<in> set (fst st). p \<in> forbidden v \<longrightarrow>
           (\<exists>x \<in> set word. grid_get (grid v) (fst p) (snd p) = Inr x)"
  shows "\<forall>p \<in> set (fst st1). p \<in> forbidden v \<longrightarrow>
           (\<exists>x \<in> set word. grid_get (grid v) (fst p) (snd p) = Inr x)"
  using assms(2,3) sample_step_pos[OF assms(1), of word "fst st" "snd st" v]
  by (auto simp: Let_def split: if_splits sum.splits)

lemma sample_positions_letters:
  assumes "sample_positions word sz ([], {}) w = Some (Inr (ps, chosen), w')" and "0 < sz"
  shows "\<forall>p \<in> set ps. p \<in> forbidden w \<longrightarrow>
           (\<exists>x \<in> set word. grid_get (grid w) (fst p) (snd p) = Inr x)"
proof -
  have "(\<lambda>y. \<forall>st'. fst y = Inr st' \<longrightarrow>
          (\<forall>p \<in> set (fst st'). p \<in> forbidden w \<longrightarrow>
             (\<exists>x \<in> set word. grid_get (grid w) (fst p) (snd p) = Inr x)))
        (Inr (ps, chosen) :: error + coord list \<times> coord set, w')"
  proof (rule sample_positions_rule[OF assms(1),
        where I = "\<lambda>st v. grid v = grid w \<and> forbidden v = forbidden w \<and>
          (\<forall>p \<in> set (fst st). p \<in> forbidden w \<longrightarrow>
             (\<exists>x \<in> set word. grid_get (grid w) (fst p) (snd p) = Inr x))"
        and P = "\<lambda>y. \<forall>st'. fst y = Inr st' \<longrightarrow>
          (\<forall>p \<in> set (fst st'). p \<in> forbidden w \<longrightarrow>
             (\<exists>x \<in> set word. grid_get (grid w) (fst p) (snd p) = Inr x))"], goal_cases)
    case 1
    show ?case by simp
  next
    case (2 st v st1 v1)
    from sample_step_frame[OF 2(3)] 2(1)
    have fr: "grid v1 = grid w \<and> forbidden v1 = forbidden w" by simp
    from sample_step_letters[OF assms(2) 2(3)] 2(1) fr show ?case by simp
  next
    case (3 st v)
    then show ?case by simp
  next
    case (4 st v e v1)
    show ?case by simp
  qed
  then show ?thesis by simp
qed

text \<open>
  C8: in the sampling loop, a drawn coordinate that is not yet chosen and lies in the
  occupancy set is rejected (the loop goes on with \<^verbatim>\<open>positions\<close> and \<^verbatim>\<open>chosen\<close> unchanged)
  if and only if the letter that the grid holds there does not occur in the word, and is
  appended otherwise; a drawn coordinate that is not in the occupancy set is always
  appended. So every occupied coordinate among the sampled positions holds a letter of the
  word.
\<close>

theorem occupancy_filter:
  assumes "0 < sz"
    and "r = int (rng w 0 mod nat sz)" and "c = int (rng w 1 mod nat sz)"
    and "(r, c) \<notin> chosen"
  shows "((r, c) \<in> forbidden w \<and> grid_get (grid w) r c = Inr existing \<longrightarrow>
            (fst (sample_step word sz (positions, chosen) w) = Inr (positions, chosen)) =
              (existing \<notin> set word) \<and>
            (fst (sample_step word sz (positions, chosen) w) =
               Inr (positions @ [(r, c)], insert (r, c) chosen)) = (existing \<in> set word)) \<and>
         ((r, c) \<notin> forbidden w \<longrightarrow>
            fst (sample_step word sz (positions, chosen) w) =
              Inr (positions @ [(r, c)], insert (r, c) chosen)) \<and>
         (sample_positions word sz ([], {}) w = Some (Inr (ps, chosen'), w') \<longrightarrow>
            (\<forall>p \<in> set ps. p \<in> forbidden w \<longrightarrow>
               (\<exists>x \<in> set word. grid_get (grid w) (fst p) (snd p) = Inr x)))"
proof (intro conjI impI)
  assume occ: "(r, c) \<in> forbidden w \<and> grid_get (grid w) r c = Inr existing"
  show "(fst (sample_step word sz (positions, chosen) w) = Inr (positions, chosen)) =
          (existing \<notin> set word)"
    using occ assms(2,3,4) by (simp add: sample_step_pos[OF assms(1)] Let_def)
  show "(fst (sample_step word sz (positions, chosen) w) =
           Inr (positions @ [(r, c)], insert (r, c) chosen)) = (existing \<in> set word)"
    using occ assms(2,3,4) by (simp add: sample_step_pos[OF assms(1)] Let_def)
next
  assume "(r, c) \<notin> forbidden w"
  then show "fst (sample_step word sz (positions, chosen) w) =
      Inr (positions @ [(r, c)], insert (r, c) chosen)"
    using assms(2,3,4) by (simp add: sample_step_pos[OF assms(1)] Let_def)
next
  assume "sample_positions word sz ([], {}) w = Some (Inr (ps, chosen'), w')"
  from sample_positions_letters[OF this assms(1)]
  show "\<forall>p \<in> set ps. p \<in> forbidden w \<longrightarrow>
          (\<exists>x \<in> set word. grid_get (grid w) (fst p) (snd p) = Inr x)" .
qed

theorem occupancy_filter_witness:
  "(0, 0) \<in> forbidden demo_world3 \<and> grid_get (grid demo_world3) 0 0 = Inr 5 \<and>
   fst (sample_step [5] 2 ([], {}) demo_world3) = Inr ([(0, 0)], {(0, 0)}) \<and>
   fst (sample_step [9] 2 ([], {}) demo_world3) = Inr ([], {}) \<and>
   (1, 0) \<notin> forbidden demo_world \<and>
   fst (sample_step [5, 6] 2 ([], {}) demo_world) = Inr ([(1, 0)], {(1, 0)}) \<and>
   sample_positions [5] 2 ([], {}) demo_world3 = Some (Inr ([(0, 0)], {(0, 0)}), demo_world3)"
proof -
  have rng3: "rng demo_world3 = (\<lambda>n. 0)" by (simp add: demo_world3_def)
  have get: "grid_get (grid demo_world3) 0 0 = Inr 5"
    by (simp add: demo_world3_fields grid_get_def py_index_def py_norm_def)
  have occ: "(0, 0) \<in> forbidden demo_world3" by (simp add: demo_world3_fields)
  have free: "(1, 0) \<notin> forbidden demo_world" by (simp add: demo_world_def)
  have rng0: "rng demo_world 0 = 1" "rng demo_world (Suc 0) = 0"
    by (simp_all add: demo_world_def)
  note accept = occupancy_filter[of 2 0 demo_world3 0 "{}" 5 "[5]" "[]" "[]" "{}" demo_world3,
      THEN conjunct1, rule_format]
  note reject = occupancy_filter[of 2 0 demo_world3 0 "{}" 5 "[9]" "[]" "[]" "{}" demo_world3,
      THEN conjunct1, rule_format]
  note fresh = occupancy_filter[of 2 1 demo_world 0 "{}" 5 "[5, 6]" "[]" "[]" "{}" demo_world,
      THEN conjunct2, THEN conjunct1, rule_format]
  note letters = occupancy_filter[of 2 0 demo_world3 0 "{}" 5 "[5]" "[]" "[(0, 0)]" "{(0, 0)}"
      demo_world3, THEN conjunct2, THEN conjunct2, rule_format, OF _ _ _ _ demo_second_sample]
  have "fst (sample_step [5] 2 ([], {}) demo_world3) = Inr ([(0, 0)], {(0, 0)})"
    using accept occ get by (simp add: rng3)
  moreover have "fst (sample_step [9] 2 ([], {}) demo_world3) = Inr ([], {})"
    using reject occ get by (simp add: rng3)
  moreover have "fst (sample_step [5, 6] 2 ([], {}) demo_world) = Inr ([(1, 0)], {(1, 0)})"
    using fresh free by (simp add: rng0)
  moreover have "\<exists>x \<in> set [5]. grid_get (grid demo_world3) 0 0 = Inr x"
    using letters[of "(0, 0)"] occ by (simp add: rng3)
  ultimately show ?thesis using occ get free demo_second_sample by simp
qed




text \<open>
  C7 fails on the code: a call with a word of two letters, a grid of one cell and an empty
  occupancy set never returns, whatever the random source draws. The sampling loop of the
  first attempt asks for a second coordinate that does not exist, and the counter of attempts
  is not looked at inside that loop.
\<close>

theorem two_letters_one_cell_never_returns:
  "place_word_scattered [a, b] 1 \<lparr>grid = [[x]], forbidden = {}, rng = g\<rparr> = None"
  using oversized_word_diverges[of 1 "[a, b]" "\<lparr>grid = [[x]], forbidden = {}, rng = g\<rparr>"]
  by simp


end
